theory Spec2Isabelle
  imports Complex_Main "HOL-Library.AList" "HOL-Library.Sublist"
begin

section \<open>WPlaceBot (v1.5.0): task queue, colour resolution, drawing loop, checkpoint\<close>

text \<open>
  The development embeds the class \<open>WPlaceBot\<close> in its lock-aware variant (version 1.5.0);
  \<open>rgbToHex\<close> and \<open>loadImageFromData\<close> read the same in the older variant
  \<open>kurowplace.js\<close>, whose \<open>saveState\<close> truncates in the same way. Conventions of the
  embedding:
  \<^item> a JavaScript string is a \<open>string\<close>, a \<open>char\<close> being a code unit from \<open>U+0000\<close> to
    \<open>U+00FF\<close>; the regular expressions of the source are written out as recognisers on
    character lists (\<open>\d\<close> is an ASCII digit, \<open>\s\<close> and \<open>trim\<close> take the white space of
    that range, \<open>U+00A0\<close> included);
  \<^item> a JavaScript number given as input is a rational, \<open>NaN\<close> or an infinity (\<open>jsnum\<close>);
    a coordinate that the source has floored is an integer (\<open>-0\<close> and \<open>0\<close> are not told
    apart); a run of digits denotes a natural number, which \<open>parseInt\<close> returns exactly below
    \<open>2^53\<close>, and \<open>r << 16\<close> wraps to a signed 32-bit integer as in the source;
  \<^item> what the language leaves to the engine or to the rounding of doubles is read from the
    environment (\<open>engine\<close>): the value of \<open>Math.hypot\<close>, and the colour strings computed from
    channels of \<open>2^52\<close> or more;
  \<^item> \<open>localStorage\<close> under the fixed key \<open>stateKey\<close> is one slot that holds the record written
    by \<open>JSON.stringify\<close>, read back by \<open>JSON.parse\<close>; the slot is a key-value store that keeps
    what was set;
  \<^item> clicks on the canvas, clicks on palette swatches and the once-only advisories are
    appended to a trace kept in the state;
  \<^item> the run is suspended at each \<open>await\<close>; what the environment may do there is call
    \<open>stop()\<close>, according to a schedule given to the loop.
\<close>

subsection \<open>Characters and regular expressions of the source\<close>

definition is_digit :: "char \<Rightarrow> bool" where
  "is_digit c = (c \<in> set ''0123456789'')"

definition is_hex_digit :: "char \<Rightarrow> bool" where
  "is_hex_digit c = (c \<in> set ''0123456789abcdefABCDEF'')"

text \<open>
  White space and line terminators, as \<open>String.prototype.trim\<close> and \<open>\s\<close> have them, among
  the code units up to \<open>U+00FF\<close>: tab, line feed, vertical tab, form feed, carriage return,
  space and no-break space.
\<close>

definition is_space :: "char \<Rightarrow> bool" where
  "is_space c = (c \<in> {CHR '' '', CHR 0x09, CHR 0x0A, CHR 0x0B, CHR 0x0C, CHR 0x0D, CHR 0xA0})"

definition trim :: "string \<Rightarrow> string" where
  "trim s = rev (dropWhile is_space (rev (dropWhile is_space s)))"

text \<open>\<open>s.match(/\d+/g)\<close>: the maximal runs of digits, left to right (\<open>[]\<close> stands for \<open>null\<close>).\<close>

fun runs :: "string \<Rightarrow> string \<Rightarrow> string list" where
  "runs cur [] = (if cur = [] then [] else [cur])"
| "runs cur (c # cs) =
     (if is_digit c then runs (cur @ [c]) cs
      else if cur = [] then runs [] cs
      else cur # runs [] cs)"

definition match_digits :: "string \<Rightarrow> string list" where
  "match_digits s = runs [] s"

definition digit_val :: "char \<Rightarrow> nat" where
  "digit_val c = of_char c - 48"

text \<open>
  The natural number that a run of digits denotes. \<open>parseInt(n, 10)\<close> returns it exactly
  when it is below \<open>2^53\<close>, and a double near it otherwise.
\<close>

definition parseInt10 :: "string \<Rightarrow> nat" where
  "parseInt10 ds = fold (\<lambda>c n. 10 * n + digit_val c) ds 0"

definition hex_val :: "char \<Rightarrow> nat" where
  "hex_val c =
     (if is_digit c then of_char c - 48
      else if c \<in> set ''abcdef'' then of_char c - 87
      else of_char c - 55)"

text \<open>\<open>parseInt(h, 16)\<close> on two hexadecimal digits.\<close>

definition parseHex2 :: "char \<Rightarrow> char \<Rightarrow> nat" where
  "parseHex2 a b = 16 * hex_val a + hex_val b"

text \<open>\<open>/^#([0-9a-f]{6})$/i\<close>\<close>

definition is_hash_hex6 :: "string \<Rightarrow> bool" where
  "is_hash_hex6 s =
     (case s of [] \<Rightarrow> False
      | c # ds \<Rightarrow> c = CHR ''#'' \<and> length ds = 6 \<and> list_all is_hex_digit ds)"

text \<open>\<open>/^rgb\s*\(/i\<close>\<close>

definition is_rgb_prefix :: "string \<Rightarrow> bool" where
  "is_rgb_prefix s =
     (case s of
        a # b # c # rest \<Rightarrow>
          a \<in> set ''rR'' \<and> b \<in> set ''gG'' \<and> c \<in> set ''bB'' \<and>
          (case dropWhile is_space rest of [] \<Rightarrow> False | d # _ \<Rightarrow> d = CHR ''('')
      | _ \<Rightarrow> False)"

subsection \<open>Colour helpers\<close>

record rgb =
  red :: nat
  green :: nat
  blue :: nat

definition hexdigit :: "nat \<Rightarrow> char" where
  "hexdigit n = ''0123456789abcdef'' ! n"

text \<open>\<open>Number.prototype.toString(16)\<close> on an integer.\<close>

fun hex_of_nat :: "nat \<Rightarrow> string" where
  "hex_of_nat n = (if n < 16 then [hexdigit n] else hex_of_nat (n div 16) @ [hexdigit (n mod 16)])"

declare hex_of_nat.simps [simp del]

definition toString16 :: "int \<Rightarrow> string" where
  "toString16 i = (if i < 0 then CHR ''-'' # hex_of_nat (nat (- i)) else hex_of_nat (nat i))"

text \<open>\<open>ToInt32\<close> and \<open>v << k\<close> on 32-bit integers.\<close>

definition toInt32 :: "int \<Rightarrow> int" where
  "toInt32 i = (i + 2 ^ 31) mod 2 ^ 32 - 2 ^ 31"

definition shl32 :: "int \<Rightarrow> nat \<Rightarrow> int" where
  "shl32 v k = toInt32 (toInt32 v * 2 ^ k)"

text \<open>
  \<open>rgbToHex(rgb)\<close>, in exact arithmetic: what the code computes when the three channels
  are below \<open>2^52\<close>, so that no double is rounded (for wider channels the callers below
  consult the engine). With no digit run the result is \<open>'#000000'\<close>. With one or two runs
  \<open>b\<close> is \<open>undefined\<close>, the sum is \<open>NaN\<close> and \<open>'NaN'.slice(1)\<close> is \<open>'aN'\<close>
  (\<open>undefined << 8\<close> is \<open>0\<close>, so that a missing \<open>g\<close> alone would not matter).
\<close>

definition rgbToHex :: "string \<Rightarrow> string" where
  "rgbToHex s =
     (case map parseInt10 (match_digits s) of
        [] \<Rightarrow> ''#000000''
      | r # g # b # _ \<Rightarrow>
          CHR ''#'' # tl (toString16 (2 ^ 24 + shl32 (int r) 16 + shl32 (int g) 8 + int b))
      | _ \<Rightarrow> CHR ''#'' # tl ''NaN'')"

text \<open>\<open>/^#?([a-f\d]{2})([a-f\d]{2})([a-f\d]{2})$/i\<close>\<close>

definition hexToRgb :: "string \<Rightarrow> rgb option" where
  "hexToRgb hex =
     (let h = (case hex of c # r \<Rightarrow> if c = CHR ''#'' then r else hex | [] \<Rightarrow> hex) in
      case h of
        [a, b, c, d, e, f] \<Rightarrow>
          if list_all is_hex_digit h
          then Some \<lparr>red = parseHex2 a b, green = parseHex2 c d, blue = parseHex2 e f\<rparr>
          else None
      | _ \<Rightarrow> None)"

definition rgbStringToObject :: "string \<Rightarrow> rgb option" where
  "rgbStringToObject s =
     (case match_digits s of
        r # g # b # _ \<Rightarrow> Some \<lparr>red = parseInt10 r, green = parseInt10 g, blue = parseInt10 b\<rparr>
      | _ \<Rightarrow> None)"

text \<open>The channels are narrow when no double is rounded on the way to the colour string.\<close>

definition narrow :: "rgb \<Rightarrow> bool" where
  "narrow v = (red v < 2 ^ 52 \<and> green v < 2 ^ 52 \<and> blue v < 2 ^ 52)"

definition narrow_channels :: "string \<Rightarrow> bool" where
  "narrow_channels s = (case rgbStringToObject s of Some v \<Rightarrow> narrow v | None \<Rightarrow> True)"

text \<open>Decimal rendering of a natural number below \<open>10^21\<close> inside a template literal.\<close>

fun dec_of_nat :: "nat \<Rightarrow> string" where
  "dec_of_nat n =
     (if n < 10 then [hexdigit n] else dec_of_nat (n div 10) @ [hexdigit (n mod 10)])"

declare dec_of_nat.simps [simp del]

text \<open>The template literal \<open>`rgb(${rgb.r},${rgb.g},${rgb.b})`\<close>, for narrow channels.\<close>

definition rgb_template :: "rgb \<Rightarrow> string" where
  "rgb_template v =
     ''rgb('' @ dec_of_nat (red v) @ '','' @ dec_of_nat (green v) @ '','' @ dec_of_nat (blue v)
       @ '')''"

text \<open>
  The exact sum of the squared channel differences, and a value of \<open>_dist(a, b)\<close>, that
  is of \<open>Math.hypot\<close> on the three differences: a finite double or \<open>Infinity\<close> (no argument
  is \<open>NaN\<close>). The code compares two such values with \<open><\<close>.
\<close>

definition dist_sq :: "rgb \<Rightarrow> rgb \<Rightarrow> int" where
  "dist_sq a b =
     (int (red a) - int (red b))\<^sup>2 + (int (green a) - int (green b))\<^sup>2
       + (int (blue a) - int (blue b))\<^sup>2"

datatype distance = Dist real | Infinite

fun dist_less :: "distance \<Rightarrow> distance \<Rightarrow> bool" where
  "dist_less (Dist x) (Dist y) = (x < y)"
| "dist_less (Dist x) Infinite = True"
| "dist_less Infinite d = False"

text \<open>
  The engine. \<open>dist_value a b\<close> is the value that \<open>_dist(a, b)\<close> has in this engine, for
  channels given by the numbers that their digits denote (\<open>Math.hypot\<close> is approximated as
  the implementation chooses). \<open>wide_hex s\<close> is the value of \<open>rgbToHex(s)\<close>, and
  \<open>wide_normal s\<close> the colour to which \<open>loadImageFromData\<close> normalises \<open>s\<close>, when a channel
  of \<open>s\<close> is \<open>2^52\<close> or more.
\<close>

record engine =
  dist_value :: "rgb \<Rightarrow> rgb \<Rightarrow> distance"
  wide_hex :: "string \<Rightarrow> string"
  wide_normal :: "string \<Rightarrow> string"

text \<open>An engine of exact arithmetic.\<close>

definition exact_dist :: "rgb \<Rightarrow> rgb \<Rightarrow> distance" where
  "exact_dist a b = Dist (sqrt (of_int (dist_sq a b)))"

definition exact_normal :: "string \<Rightarrow> string" where
  "exact_normal s =
     (case rgbStringToObject s of Some v \<Rightarrow> rgbToHex (rgb_template v) | None \<Rightarrow> s)"

definition exact_engine :: engine where
  "exact_engine = \<lparr>dist_value = exact_dist, wide_hex = rgbToHex, wide_normal = exact_normal\<rparr>"

subsection \<open>Data model\<close>

record pixel =
  px :: int
  py :: int
  pcolor :: string

text \<open>A palette entry; \<open>element\<close> identifies the DOM node of the swatch.\<close>

record entry =
  element :: nat
  ecolor :: string
  locked :: bool

datatype mode = ModeSkip | ModeMap | ModeManual

datatype advisory =
  AdvNoPalette | AdvNoCell | AdvSkipLocked | AdvLockedManual | AdvNoReplacement

datatype event = CanvasClick int int | SwatchClick nat | Advisory advisory

text \<open>The value of \<open>selectColorSmart\<close>: \<open>'SKIP'\<close>, \<open>true\<close> or \<open>false\<close>.\<close>

datatype select_result = ResSkip | ResTrue | ResFalse

text \<open>The object that \<open>saveState\<close> serialises.\<close>

record saved =
  sv_version :: int
  sv_imageName :: string
  sv_startX :: int
  sv_startY :: int
  sv_delay :: int
  sv_currentPixel :: nat
  sv_totalPixels :: nat
  sv_remaining :: "pixel list"
  sv_cellW :: "int option"
  sv_cellH :: "int option"
  sv_savedAt :: int

record bot =
  isRunning :: bool
  delay :: int
  currentPixel :: nat
  pixels :: "pixel list"
  startX :: int
  startY :: int
  canvas :: bool
  colorPalette :: "entry list"
  selectedColor :: string
  useAutoPalette :: bool
  lockedColorMode :: mode
  cellW :: "int option"
  cellH :: "int option"
  imageName :: string
  autosaveEvery :: nat
  largeSaveCap :: nat
  warnedNoCell :: bool
  skipWarned :: bool
  manualWarned :: bool
  autoWarned :: bool
  storage :: "saved option"
  clock :: int
  trace :: "event list"
  engine :: engine

text \<open>
  The constructor; \<open>clock\<close> (the value of \<open>Date.now()\<close>) and \<open>engine\<close> belong to the
  environment.
\<close>

definition new_bot :: bot where
  "new_bot =
     \<lparr>isRunning = False, delay = 600, currentPixel = 0, pixels = [], startX = 0, startY = 0,
      canvas = False, colorPalette = [], selectedColor = ''#000000'', useAutoPalette = True,
      lockedColorMode = ModeMap, cellW = None, cellH = None, imageName = ''Custom Image'',
      autosaveEvery = 20, largeSaveCap = 50000, warnedNoCell = False, skipWarned = False,
      manualWarned = False, autoWarned = False, storage = None, clock = 0, trace = [],
      engine = exact_engine\<rparr>"

definition warn_once :: "advisory \<Rightarrow> bool \<Rightarrow> event list" where
  "warn_once a warned = (if warned then [] else [Advisory a])"

subsection \<open>Nearest palette entry and the locked-colour policy\<close>

text \<open>
  One turn of the \<open>for\<close> loop of \<open>findClosestEntry\<close>; the accumulator is \<open>(best, bestD)\<close>,
  at first \<open>(null, Infinity)\<close>.
\<close>

definition scan_step ::
  "(rgb \<Rightarrow> rgb \<Rightarrow> distance) \<Rightarrow> rgb \<Rightarrow> bool \<Rightarrow> entry \<Rightarrow> entry option \<times> distance
     \<Rightarrow> entry option \<times> distance" where
  "scan_step dv target onlyUnlocked e acc =
     (if onlyUnlocked \<and> locked e then acc
      else case rgbStringToObject (ecolor e) of
        None \<Rightarrow> acc
      | Some c \<Rightarrow>
          (let d = dv target c in
           if dist_less d (snd acc) then (Some e, d) else acc))"

definition findClosestEntry ::
  "(rgb \<Rightarrow> rgb \<Rightarrow> distance) \<Rightarrow> string \<Rightarrow> bool \<Rightarrow> entry list \<Rightarrow> entry option" where
  "findClosestEntry dv targetHex onlyUnlocked palette =
     (let target = (case hexToRgb targetHex of Some t \<Rightarrow> t
                    | None \<Rightarrow> \<lparr>red = 0, green = 0, blue = 0\<rparr>)
      in fst (fold (scan_step dv target onlyUnlocked) palette (None, Infinite)))"

text \<open>\<open>this.rgbToHex(s)\<close> as a caller gets it.\<close>

definition rgb_hex :: "engine \<Rightarrow> string \<Rightarrow> string" where
  "rgb_hex eng s = (if narrow_channels s then rgbToHex s else wide_hex eng s)"

definition click_swatch :: "entry \<Rightarrow> bot \<Rightarrow> bot" where
  "click_swatch e b =
     b\<lparr>trace := trace b @ [SwatchClick (element e)],
       selectedColor := rgb_hex (engine b) (ecolor e)\<rparr>"

definition to_manual :: "advisory \<Rightarrow> bot \<Rightarrow> bot" where
  "to_manual a b =
     b\<lparr>trace := trace b @ warn_once a (manualWarned b), manualWarned := True,
       useAutoPalette := False\<rparr>"

definition selectColorSmart :: "string \<Rightarrow> bot \<Rightarrow> select_result \<times> bot" where
  "selectColorSmart targetHex b =
     (if colorPalette b = [] then (ResFalse, b)
      else case findClosestEntry (dist_value (engine b)) targetHex False (colorPalette b) of
        None \<Rightarrow> (ResFalse, b)
      | Some closest \<Rightarrow>
          if locked closest then
            (if lockedColorMode b = ModeSkip then
               (ResSkip, b\<lparr>trace := trace b @ warn_once AdvSkipLocked (skipWarned b),
                           skipWarned := True\<rparr>)
             else if lockedColorMode b = ModeManual then
               (ResFalse, to_manual AdvLockedManual b)
             else case findClosestEntry (dist_value (engine b)) targetHex True (colorPalette b) of
               Some unlocked \<Rightarrow> (ResTrue, click_swatch unlocked b)
             | None \<Rightarrow> (ResFalse, to_manual AdvNoReplacement b))
          else (ResTrue, click_swatch closest b))"

subsection \<open>Persistence\<close>

definition saveState :: "bot \<Rightarrow> bot" where
  "saveState b =
     (let remaining = drop (currentPixel b) (pixels b) in
      b\<lparr>storage := Some
          \<lparr>sv_version = 1, sv_imageName = imageName b,
           sv_startX = startX b, sv_startY = startY b, sv_delay = delay b,
           sv_currentPixel = currentPixel b, sv_totalPixels = length (pixels b),
           sv_remaining =
             (if length remaining > largeSaveCap b then take (largeSaveCap b) remaining
              else remaining),
           sv_cellW = cellW b, sv_cellH = cellH b, sv_savedAt = clock b\<rparr>\<rparr>)"

text \<open>
  \<open>Number.isFinite(null)\<close> is false, so that an absent cell size keeps the current one;
  an empty image name is falsy and becomes \<open>'Custom Image'\<close>.
\<close>

definition loadState :: "bot \<Rightarrow> bool \<times> bot" where
  "loadState b =
     (case storage b of
        None \<Rightarrow> (False, b)
      | Some s \<Rightarrow>
          if sv_version s \<noteq> 1 then (False, b)
          else (True,
            b\<lparr>imageName := (if sv_imageName s = [] then ''Custom Image'' else sv_imageName s),
              startX := sv_startX s, startY := sv_startY s, delay := sv_delay s,
              cellW := (case sv_cellW s of Some w \<Rightarrow> Some w | None \<Rightarrow> cellW b),
              cellH := (case sv_cellH s of Some h \<Rightarrow> Some h | None \<Rightarrow> cellH b),
              pixels := sv_remaining s, currentPixel := 0\<rparr>))"

definition clearState :: "bot \<Rightarrow> bot" where
  "clearState b = b\<lparr>storage := None\<rparr>"

definition stop :: "bot \<Rightarrow> bot" where
  "stop b = saveState (b\<lparr>isRunning := False\<rparr>)"

subsection \<open>Loading raw pixel data\<close>

datatype jsnum = Fin rat | NaN | PosInf | NegInf

text \<open>A property value: a number, a string, or anything else (\<open>undefined\<close>, \<open>null\<close>, ...).\<close>

datatype jsval = JNum jsnum | JStr string | JOther

text \<open>An element of \<open>pixelData\<close>: a falsy value, or an object read at \<open>x\<close>, \<open>y\<close>, \<open>color\<close>.\<close>

datatype raw_item = Falsy | Item jsval jsval jsval

datatype pixel_data = NotArray | Array "raw_item list"

definition math_floor :: "jsnum \<Rightarrow> jsnum" where
  "math_floor v = (case v of Fin q \<Rightarrow> Fin (of_int \<lfloor>q\<rfloor>) | _ \<Rightarrow> v)"

definition is_negative :: "jsnum \<Rightarrow> bool" where
  "is_negative v = (case v of Fin q \<Rightarrow> q < 0 | NegInf \<Rightarrow> True | _ \<Rightarrow> False)"

definition is_finite :: "jsnum \<Rightarrow> bool" where
  "is_finite v = (case v of Fin q \<Rightarrow> True | _ \<Rightarrow> False)"

definition to_int :: "jsnum \<Rightarrow> int" where
  "to_int v = (case v of Fin q \<Rightarrow> \<lfloor>q\<rfloor> | _ \<Rightarrow> 0)"

text \<open>
  The colour of an accepted item; \<open>wide\<close> is the engine's \<open>wide_normal\<close>. The test for
  \<open>rgb(\<close> and the three runs of digits are all that is asked of an \<open>rgb\<close> colour.
\<close>

definition normalize_color :: "(string \<Rightarrow> string) \<Rightarrow> string \<Rightarrow> string option" where
  "normalize_color wide c =
     (let color = trim c in
      if is_hash_hex6 color then Some color
      else if is_rgb_prefix color then
        (case rgbStringToObject color of
           None \<Rightarrow> None
         | Some v \<Rightarrow> Some (if narrow v then rgbToHex (rgb_template v) else wide color))
      else None)"

text \<open>The body of the validation loop: \<open>None\<close> is \<open>return false\<close>.\<close>

definition normalize_item :: "(string \<Rightarrow> string) \<Rightarrow> raw_item \<Rightarrow> pixel option" where
  "normalize_item wide p =
     (case p of
        Item (JNum vx) (JNum vy) (JStr c) \<Rightarrow>
          (case normalize_color wide c of
             None \<Rightarrow> None
           | Some color \<Rightarrow>
               (let x = math_floor vx; y = math_floor vy in
                if is_negative x \<or> is_negative y \<or> \<not> is_finite x \<or> \<not> is_finite y then None
                else Some \<lparr>px = to_int x, py = to_int y, pcolor = color\<rparr>))
      | _ \<Rightarrow> None)"

fun normalize_all :: "(string \<Rightarrow> string) \<Rightarrow> raw_item list \<Rightarrow> pixel list option" where
  "normalize_all wide [] = Some []"
| "normalize_all wide (p # ps) =
     (case normalize_item wide p of
        None \<Rightarrow> None
      | Some q \<Rightarrow> (case normalize_all wide ps of None \<Rightarrow> None | Some qs \<Rightarrow> Some (q # qs)))"

text \<open>
  \<open>map.set(`${p.x},${p.y}`, p)\<close> on a \<open>Map\<close>, which keeps the order of first insertion; the
  key string determines the pair of integers and is modelled by it.
\<close>

definition map_set :: "pixel \<Rightarrow> ((int \<times> int) \<times> pixel) list \<Rightarrow> ((int \<times> int) \<times> pixel) list" where
  "map_set p m = AList.update (px p, py p) p m"

definition map_values :: "((int \<times> int) \<times> pixel) list \<Rightarrow> pixel list" where
  "map_values m = map snd m"

text \<open>The comparator \<open>(a, b) => (a.y - b.y) || (a.x - b.x)\<close>.\<close>

definition compare_yx :: "pixel \<Rightarrow> pixel \<Rightarrow> int" where
  "compare_yx a b = (if py a - py b \<noteq> 0 then py a - py b else px a - px b)"

text \<open>\<open>Array.prototype.sort\<close> is a stable sort by the comparator: insertion from the left.\<close>

fun insert_by :: "('a \<Rightarrow> 'a \<Rightarrow> int) \<Rightarrow> 'a \<Rightarrow> 'a list \<Rightarrow> 'a list" where
  "insert_by c x [] = [x]"
| "insert_by c x (y # ys) = (if c x y < 0 then x # y # ys else y # insert_by c x ys)"

definition sort_by :: "('a \<Rightarrow> 'a \<Rightarrow> int) \<Rightarrow> 'a list \<Rightarrow> 'a list" where
  "sort_by c xs = fold (insert_by c) xs []"

definition dedup_sort :: "pixel list \<Rightarrow> pixel list" where
  "dedup_sort normed = sort_by compare_yx (map_values (fold map_set normed []))"

definition loadImageFromData :: "pixel_data \<Rightarrow> string \<Rightarrow> bot \<Rightarrow> bool \<times> bot" where
  "loadImageFromData pixelData name b =
     (case pixelData of
        NotArray \<Rightarrow> (False, b)
      | Array items \<Rightarrow>
          (case normalize_all (wide_normal (engine b)) items of
             None \<Rightarrow> (False, b)
           | Some normed \<Rightarrow>
               (let dedup = dedup_sort normed;
                    b1 = b\<lparr>pixels := dedup, currentPixel := 0, imageName := name\<rparr>
                in (True, if length dedup \<le> largeSaveCap b1 then saveState b1 else b1))))"

subsection \<open>The drawing loop\<close>

definition clickCanvas :: "int \<Rightarrow> int \<Rightarrow> bot \<Rightarrow> bot" where
  "clickCanvas x y b = (if \<not> canvas b then b else b\<lparr>trace := trace b @ [CanvasClick x y]\<rparr>)"

text \<open>
  A suspension (\<open>await this.sleep(...)\<close>) during which the environment may call \<open>stop()\<close>.
\<close>

definition suspend :: "bool \<Rightarrow> bot \<Rightarrow> bot" where
  "suspend stopCalled b = (if stopCalled then stop b else b)"

definition place :: "int \<Rightarrow> int \<Rightarrow> bool \<Rightarrow> bot \<Rightarrow> bot" where
  "place x y stopCalled b =
     (let b1 = clickCanvas x y b;
          b2 = b1\<lparr>currentPixel := currentPixel b1 + 1\<rparr>;
          b3 = (if autosaveEvery b2 \<noteq> 0 \<and> currentPixel b2 mod autosaveEvery b2 = 0
                then saveState b2 else b2)
      in suspend stopCalled b3)"

text \<open>
  One turn of the \<open>while\<close> loop, for cell size \<open>W\<close>, \<open>H\<close>; \<open>stopCalled\<close> tells whether
  \<open>stop()\<close> is called while the turn is suspended in its last \<open>sleep\<close> (a call during the
  pause after a colour switch takes effect at the same loop test).
\<close>

definition iteration :: "int \<Rightarrow> int \<Rightarrow> bool \<Rightarrow> bot \<Rightarrow> bot" where
  "iteration W H stopCalled b =
     (let p = pixels b ! currentPixel b;
          x = startX b + px p * W + W div 2;
          y = startY b + py p * H + H div 2
      in if useAutoPalette b then
           (case selectColorSmart (pcolor p) b of
              (ResSkip, b1) \<Rightarrow> suspend stopCalled (b1\<lparr>currentPixel := currentPixel b1 + 1\<rparr>)
            | (_, b1) \<Rightarrow> place x y stopCalled b1)
         else place x y stopCalled b)"

text \<open>
  The \<open>while\<close> loop; \<open>stops i\<close> tells whether \<open>stop()\<close> is called during the turn that
  handles the task at index \<open>i\<close>.
\<close>

function loop :: "int \<Rightarrow> int \<Rightarrow> (nat \<Rightarrow> bool) \<Rightarrow> bot \<Rightarrow> bot" where
  "loop W H stops b =
     (if isRunning b \<and> currentPixel b < length (pixels b)
      then loop W H stops (iteration W H (stops (currentPixel b)) b)
      else b)"
  by pat_completeness auto
termination
proof (relation "measure (\<lambda>(W, H, stops, b). length (pixels b) - currentPixel b)")
  show "wf (measure (\<lambda>(W, H, stops, b). length (pixels b) - currentPixel b))"
    by simp
next
  fix W H :: int and stops :: "nat \<Rightarrow> bool" and b :: bot
  assume run: "isRunning b \<and> currentPixel b < length (pixels b)"
  have sel: "pixels (snd (selectColorSmart t b)) = pixels b
             \<and> currentPixel (snd (selectColorSmart t b)) = currentPixel b" for t
    by (simp add: selectColorSmart_def click_swatch_def to_manual_def split: option.split)
  have sus: "pixels (suspend s c) = pixels c \<and> currentPixel (suspend s c) = currentPixel c" for s c
    by (simp add: suspend_def stop_def saveState_def Let_def)
  have pl: "pixels (place x y s c) = pixels c \<and> currentPixel (place x y s c) = currentPixel c + 1"
    for x y s c
    by (simp add: place_def clickCanvas_def sus saveState_def Let_def)
  have "pixels (iteration W H s b) = pixels b
        \<and> currentPixel (iteration W H s b) = currentPixel b + 1" for s
    using sel [of "pcolor (pixels b ! currentPixel b)"]
    by (cases "selectColorSmart (pcolor (pixels b ! currentPixel b)) b")
       (simp add: iteration_def Let_def sus pl split: select_result.split)
  with run show "((W, H, stops, iteration W H (stops (currentPixel b)) b), (W, H, stops, b))
        \<in> measure (\<lambda>(W, H, stops, b). length (pixels b) - currentPixel b)"
    by (simp add: diff_less_mono2)
qed

declare loop.simps [simp del]

text \<open>
  The constants \<open>W\<close> and \<open>H\<close> of \<open>start\<close>: a cell width that is not a positive number
  counts as \<open>1\<close>, a cell height that is not a positive number counts as \<open>W\<close>.
\<close>

definition cell_width :: "bot \<Rightarrow> int" where
  "cell_width b = (case cellW b of Some w \<Rightarrow> if w > 0 then w else 1 | None \<Rightarrow> 1)"

definition cell_height :: "bot \<Rightarrow> int" where
  "cell_height b =
     (case cellH b of Some h \<Rightarrow> if h > 0 then h else cell_width b | None \<Rightarrow> cell_width b)"

text \<open>The three blocks of \<open>start\<close> around the loop.\<close>

definition downgrade :: "bot \<Rightarrow> bot" where
  "downgrade b =
     (if useAutoPalette b \<and> colorPalette b = []
      then b\<lparr>trace := trace b @ warn_once AdvNoPalette (autoWarned b),
             autoWarned := True, useAutoPalette := False\<rparr>
      else b)"

definition warn_cell :: "int \<Rightarrow> int \<Rightarrow> bot \<Rightarrow> bot" where
  "warn_cell W H b =
     (if (W = 1 \<or> H = 1) \<and> \<not> warnedNoCell b
      then b\<lparr>trace := trace b @ [Advisory AdvNoCell], warnedNoCell := True\<rparr>
      else b)"

definition finish :: "bot \<Rightarrow> bot" where
  "finish b =
     (let b1 = b\<lparr>isRunning := False\<rparr>
      in if currentPixel b1 \<ge> length (pixels b1) then clearState b1 else saveState b1)"

definition start :: "(nat \<Rightarrow> bool) \<Rightarrow> bot \<Rightarrow> bot" where
  "start stops b =
     (if isRunning b then b
      else if pixels b = [] then b
      else if \<not> canvas b then b
      else
        (let b1 = downgrade b;
             W = cell_width b1;
             H = cell_height b1;
             b2 = warn_cell W H b1
         in finish (loop W H stops (b2\<lparr>isRunning := True\<rparr>))))"

subsection \<open>Notions used to state the properties\<close>

definition coord :: "pixel \<Rightarrow> int \<times> int" where
  "coord p = (px p, py p)"

text \<open>Ascending by \<open>(y, x)\<close>, strictly.\<close>

definition yx_less :: "pixel \<Rightarrow> pixel \<Rightarrow> bool" where
  "yx_less a b = (py a < py b \<or> (py a = py b \<and> px a < px b))"

text \<open>
  The nearest entry in the words of the palette model, by the distance that the engine
  computes: among the entries whose distance is finite (entries without an RGB value have
  none) and that are unlocked, when the search is restricted, the first one at least
  distance.
\<close>

definition target_rgb :: "string \<Rightarrow> rgb" where
  "target_rgb t = (case hexToRgb t of Some v \<Rightarrow> v | None \<Rightarrow> \<lparr>red = 0, green = 0, blue = 0\<rparr>)"

definition has_rgb :: "entry \<Rightarrow> bool" where
  "has_rgb e = (rgbStringToObject (ecolor e) \<noteq> None)"

definition entry_dist :: "(rgb \<Rightarrow> rgb \<Rightarrow> distance) \<Rightarrow> string \<Rightarrow> entry \<Rightarrow> distance" where
  "entry_dist dv t e =
     (case rgbStringToObject (ecolor e) of Some c \<Rightarrow> dv (target_rgb t) c | None \<Rightarrow> Infinite)"

definition magnitude :: "distance \<Rightarrow> real" where
  "magnitude d = (case d of Dist x \<Rightarrow> x | Infinite \<Rightarrow> 0)"

definition eligible :: "(rgb \<Rightarrow> rgb \<Rightarrow> distance) \<Rightarrow> string \<Rightarrow> bool \<Rightarrow> entry \<Rightarrow> bool" where
  "eligible dv t onlyUnlocked e =
     ((onlyUnlocked \<longrightarrow> \<not> locked e) \<and> entry_dist dv t e \<noteq> Infinite)"

definition nearest ::
  "(rgb \<Rightarrow> rgb \<Rightarrow> distance) \<Rightarrow> string \<Rightarrow> bool \<Rightarrow> entry list \<Rightarrow> entry option" where
  "nearest dv t onlyUnlocked es =
     (case filter (eligible dv t onlyUnlocked) es of
        [] \<Rightarrow> None
      | c # cs \<Rightarrow> Some (arg_min_list (\<lambda>e. magnitude (entry_dist dv t e)) (c # cs)))"

text \<open>
  The exact squared Euclidean distance of an entry from the target, and an engine that
  keeps the strict order of the exact distances on the entries of a palette.
\<close>

definition exact_sq :: "string \<Rightarrow> entry \<Rightarrow> int" where
  "exact_sq t e =
     (case rgbStringToObject (ecolor e) of Some c \<Rightarrow> dist_sq (target_rgb t) c | None \<Rightarrow> 0)"

definition keeps_order :: "(rgb \<Rightarrow> rgb \<Rightarrow> distance) \<Rightarrow> string \<Rightarrow> entry list \<Rightarrow> bool" where
  "keeps_order dv t es =
     (\<forall>e\<in>set es. \<forall>e'\<in>set es. has_rgb e \<and> has_rgb e' \<and> exact_sq t e < exact_sq t e'
        \<longrightarrow> dist_less (entry_dist dv t e) (entry_dist dv t e'))"

text \<open>
  An item that the validation turns down: a coordinate that is not a number, a coordinate
  that is negative or not finite after flooring, or a colour that is not a string or
  that, trimmed, is neither \<open>#RRGGBB\<close> nor a string that begins with \<open>rgb(\<close> and holds
  three runs of digits.
\<close>

definition bad_color :: "string \<Rightarrow> bool" where
  "bad_color c =
     (\<not> is_hash_hex6 (trim c)
      \<and> \<not> (is_rgb_prefix (trim c) \<and> 3 \<le> length (match_digits (trim c))))"

definition bad_coordinate :: "jsval \<Rightarrow> bool" where
  "bad_coordinate v =
     (case v of
        JNum n \<Rightarrow> is_negative (math_floor n) \<or> \<not> is_finite (math_floor n)
      | _ \<Rightarrow> True)"

definition malformed :: "raw_item \<Rightarrow> bool" where
  "malformed p =
     (case p of
        Falsy \<Rightarrow> True
      | Item vx vy vc \<Rightarrow>
          bad_coordinate vx \<or> bad_coordinate vy
          \<or> (case vc of JStr c \<Rightarrow> bad_color c | _ \<Rightarrow> True))"




text \<open>The canvas clicks of a trace, in order.\<close>

definition canvas_clicks :: "event list \<Rightarrow> (int \<times> int) list" where
  "canvas_clicks tr = concat (map (\<lambda>e. case e of CanvasClick x y \<Rightarrow> [(x, y)] | _ \<Rightarrow> []) tr)"




text \<open>Two lower-case hexadecimal digits of a channel value.\<close>

definition hex2 :: "nat \<Rightarrow> string" where
  "hex2 n = [hexdigit (n div 16), hexdigit (n mod 16)]"

text \<open>A row of distinct tasks, \<open>(i, 0)\<close> up to \<open>(j - 1, 0)\<close>, for examples with long queues.\<close>

definition numbered :: "nat \<Rightarrow> pixel" where
  "numbered i = \<lparr>px = int i, py = 0, pcolor = ''#000000''\<rparr>"

definition row_of :: "nat \<Rightarrow> nat \<Rightarrow> pixel list" where
  "row_of i j = map numbered [i..<j]"

text \<open>Ascending by \<open>(y, x)\<close>, not strictly: what the comparator of the sort guarantees.\<close>

definition yx_le :: "pixel \<Rightarrow> pixel \<Rightarrow> bool" where
  "yx_le a b = (py a < py b \<or> (py a = py b \<and> px a \<le> px b))"





text \<open>The state in which \<open>start\<close> enters the loop, once its three early returns are passed.\<close>

definition loop_entry :: "bot \<Rightarrow> bot" where
  "loop_entry b = (warn_cell (cell_width b) (cell_height b) (downgrade b))\<lparr>isRunning := True\<rparr>"

text \<open>
  Schedules of the environment (\<open>stop()\<close> is never called, or is called during the turn of
  task \<open>m\<close>) and states for examples: three tasks at start \<open>(120, 300)\<close>, a queue of 50002
  tasks, and a width calibrated without a height.
\<close>

definition never_stopped :: "nat \<Rightarrow> bool" where
  "never_stopped i = False"

definition stopped_in_turn :: "nat \<Rightarrow> nat \<Rightarrow> bool" where
  "stopped_in_turn m i = (i = m)"

definition short_run :: bot where
  "short_run = new_bot\<lparr>canvas := True, startX := 120, startY := 300,
     pixels := [\<lparr>px = 0, py = 0, pcolor = ''#ff0000''\<rparr>, \<lparr>px = 1, py = 0, pcolor = ''#ff0000''\<rparr>,
                \<lparr>px = 0, py = 1, pcolor = ''#ff0000''\<rparr>]\<rparr>"

definition long_run :: bot where
  "long_run = new_bot\<lparr>canvas := True, pixels := row_of 0 50002\<rparr>"












section \<open>Properties\<close>

subsection \<open>Evaluation of the colour helpers\<close>

lemmas color_eval = match_digits_def is_digit_def parseInt10_def digit_val_def shl32_def toInt32_def
  toString16_def hex_of_nat.simps hexdigit_def rgbToHex_def rgbStringToObject_def hexToRgb_def
  is_hex_digit_def parseHex2_def hex_val_def dist_sq_def

subsection \<open>Nearest palette entry\<close>

lemma fold_scan_no_rgb:
  "\<forall>e\<in>set es. rgbStringToObject (ecolor e) = None \<Longrightarrow> fold (scan_step dv t ou) es acc = acc"
  by (induction es arbitrary: acc) (simp_all add: scan_step_def)

lemma fold_scan_result:
  "fst (fold (scan_step dv t ou) es acc) = Some e \<Longrightarrow>
     fst acc = Some e \<or> (e \<in> set es \<and> rgbStringToObject (ecolor e) \<noteq> None \<and> (ou \<longrightarrow> \<not> locked e))"
proof (induction es arbitrary: acc)
  case Nil
  then show ?case by simp
next
  case (Cons a es)
  from Cons.prems have "fst (fold (scan_step dv t ou) es (scan_step dv t ou a acc)) = Some e"
    by simp
  from Cons.IH [OF this] show ?case
    by (auto simp: scan_step_def Let_def split: if_splits option.splits)
qed

text \<open>
  C10. When no entry of a non-empty palette has a colour string with three runs of digits,
  \<open>findClosestEntry\<close> returns \<open>null\<close>, in the unrestricted and in the unlocked-only
  search; and whatever the palette, the entry it returns is an entry of the palette whose
  colour string parses. This holds in every engine.
\<close>

theorem findClosestEntry_skips_unparsed:
  "(es \<noteq> [] \<and> (\<forall>e\<in>set es. rgbStringToObject (ecolor e) = None)
      \<longrightarrow> findClosestEntry dv t False es = None \<and> findClosestEntry dv t True es = None)
   \<and> (findClosestEntry dv t ou es = Some e \<longrightarrow> e \<in> set es \<and> rgbStringToObject (ecolor e) \<noteq> None)"
proof (intro conjI impI)
  assume h: "es \<noteq> [] \<and> (\<forall>e\<in>set es. rgbStringToObject (ecolor e) = None)"
  then show "findClosestEntry dv t False es = None" "findClosestEntry dv t True es = None"
    by (simp_all add: findClosestEntry_def fold_scan_no_rgb)
next
  assume "findClosestEntry dv t ou es = Some e"
  then have "fst (fold (scan_step dv (target_rgb t) ou) es (None, Infinite)) = Some e"
    by (simp add: findClosestEntry_def target_rgb_def Let_def)
  from fold_scan_result [OF this]
  show "e \<in> set es" "rgbStringToObject (ecolor e) \<noteq> None" by auto
qed

theorem findClosestEntry_skips_unparsed_witness:
  "findClosestEntry exact_dist ''#102030'' False
       [\<lparr>element = 0, ecolor = ''transparent'', locked = False\<rparr>] = None
   \<and> findClosestEntry exact_dist ''#102030'' True
       [\<lparr>element = 0, ecolor = ''transparent'', locked = False\<rparr>] = None
   \<and> findClosestEntry exact_dist ''#102030'' False
        [\<lparr>element = 0, ecolor = ''transparent'', locked = False\<rparr>,
         \<lparr>element = 1, ecolor = ''rgb(16, 32, 50)'', locked = True\<rparr>]
       = Some \<lparr>element = 1, ecolor = ''rgb(16, 32, 50)'', locked = True\<rparr>
   \<and> rgbStringToObject ''rgb(16, 32, 50)'' \<noteq> None"
  using findClosestEntry_skips_unparsed
    [where es = "[\<lparr>element = 0, ecolor = ''transparent'', locked = False\<rparr>]"
       and t = "''#102030''" and dv = exact_dist]
    findClosestEntry_skips_unparsed
    [where t = "''#102030''" and ou = False and dv = exact_dist
       and es = "[\<lparr>element = 0, ecolor = ''transparent'', locked = False\<rparr>,
         \<lparr>element = 1, ecolor = ''rgb(16, 32, 50)'', locked = True\<rparr>]"
       and e = "\<lparr>element = 1, ecolor = ''rgb(16, 32, 50)'', locked = True\<rparr>"]
  by (simp add: findClosestEntry_def scan_step_def exact_dist_def color_eval)

subsection \<open>Packing a colour into hexadecimal\<close>

lemma hex_of_nat_digit: "d < 16 \<Longrightarrow> hex_of_nat d = [hexdigit d]"
  by (subst hex_of_nat.simps) simp

lemma hex_of_nat_snoc: "0 < m \<Longrightarrow> d < 16 \<Longrightarrow> hex_of_nat (16 * m + d) = hex_of_nat m @ [hexdigit d]"
  by (subst hex_of_nat.simps) simp

lemma hex_of_packed:
  assumes "r < 256" "g < 256" "b < 256"
  shows "hex_of_nat (2 ^ 24 + r * 65536 + g * 256 + b) = CHR ''1'' # hex2 r @ hex2 g @ hex2 b"
proof -
  define r1 r0 g1 g0 b1 b0 where
    "r1 = r div 16" and "r0 = r mod 16" and "g1 = g div 16" and "g0 = g mod 16"
    and "b1 = b div 16" and "b0 = b mod 16"
  have split: "r = 16 * r1 + r0" "g = 16 * g1 + g0" "b = 16 * b1 + b0"
    by (simp_all add: r1_def r0_def g1_def g0_def b1_def b0_def)
  have small: "r0 < 16" "g0 < 16" "b0 < 16" "r1 < 16" "g1 < 16" "b1 < 16"
    using assms by (simp_all add: r1_def r0_def g1_def g0_def b1_def b0_def less_mult_imp_div_less)
  define m1 m2 m3 m4 m5 where
    "m1 = 16 + r1" and "m2 = 16 * m1 + r0" and "m3 = 16 * m2 + g1" and "m4 = 16 * m3 + g0"
    and "m5 = 16 * m4 + b1"
  have pos: "0 < m1" "0 < m2" "0 < m3" "0 < m4" "0 < m5"
    by (simp_all add: m1_def m2_def m3_def m4_def m5_def)
  have "hex_of_nat m1 = hex_of_nat 1 @ [hexdigit r1]"
    using hex_of_nat_snoc [of 1 r1] small by (simp add: m1_def)
  then have e1: "hex_of_nat m1 = [CHR ''1'', hexdigit r1]"
    by (simp add: hex_of_nat_digit hexdigit_def)
  have e2: "hex_of_nat m2 = hex_of_nat m1 @ [hexdigit r0]"
    unfolding m2_def by (rule hex_of_nat_snoc) (simp_all add: pos small)
  have e3: "hex_of_nat m3 = hex_of_nat m2 @ [hexdigit g1]"
    unfolding m3_def by (rule hex_of_nat_snoc) (simp_all add: pos small)
  have e4: "hex_of_nat m4 = hex_of_nat m3 @ [hexdigit g0]"
    unfolding m4_def by (rule hex_of_nat_snoc) (simp_all add: pos small)
  have e5: "hex_of_nat m5 = hex_of_nat m4 @ [hexdigit b1]"
    unfolding m5_def by (rule hex_of_nat_snoc) (simp_all add: pos small)
  have e6: "hex_of_nat (16 * m5 + b0) = hex_of_nat m5 @ [hexdigit b0]"
    by (rule hex_of_nat_snoc) (simp_all add: pos small)
  have "2 ^ 24 + r * 65536 + g * 256 + b = 16 * m5 + b0"
    by (simp add: split m1_def m2_def m3_def m4_def m5_def)
  then have "hex_of_nat (2 ^ 24 + r * 65536 + g * 256 + b) = hex_of_nat (16 * m5 + b0)"
    by (rule arg_cong)
  also have "\<dots> = [CHR ''1'', hexdigit r1, hexdigit r0, hexdigit g1, hexdigit g0,
                      hexdigit b1, hexdigit b0]"
    by (simp add: e1 e2 e3 e4 e5 e6)
  also have "\<dots> = CHR ''1'' # hex2 r @ hex2 g @ hex2 b"
    by (simp add: hex2_def r1_def r0_def g1_def g0_def b1_def b0_def)
  finally show ?thesis .
qed

lemma shl32_small: "0 \<le> v \<Longrightarrow> v * 2 ^ k < 2 ^ 31 \<Longrightarrow> shl32 v k = v * 2 ^ k"
proof -
  assume v: "0 \<le> v" and lt: "v * 2 ^ k < 2 ^ 31"
  have "v \<le> v * 2 ^ k" using v by (simp add: mult_le_cancel_left1)
  with lt have v31: "v < 2 ^ 31" by linarith
  have t: "toInt32 i = i" if "0 \<le> i" "i < 2 ^ 31" for i
    using that by (simp add: toInt32_def)
  from v have "0 \<le> v * 2 ^ k" by simp
  with t [of v] t [of "v * 2 ^ k"] v v31 lt show ?thesis by (simp add: shl32_def)
qed

lemma hexdigit_is_hex: "n < 16 \<Longrightarrow> is_hex_digit (hexdigit n)"
proof -
  assume "n < 16"
  then have "n \<in> set [0..<16]" by simp
  then show ?thesis
    by (auto simp: upt_rec hexdigit_def is_hex_digit_def)
qed

text \<open>
  C9, as the code has it. When the first three runs of digits of the input are channel
  values in the range 0 to 255, \<open>rgbToHex\<close> yields \<open>#\<close> and the six hexadecimal digits of
  the three channels; when the input has no digit at all it yields \<open>#000000\<close>.
\<close>

theorem rgbToHex_channels_in_range:
  "(map parseInt10 (match_digits s) = r # g # b # others \<and> r \<le> 255 \<and> g \<le> 255 \<and> b \<le> 255
      \<longrightarrow> rgbToHex s = CHR ''#'' # hex2 r @ hex2 g @ hex2 b \<and> is_hash_hex6 (rgbToHex s))
   \<and> (match_digits s = [] \<longrightarrow> rgbToHex s = ''#000000'')"
proof (intro conjI impI)
  assume h: "map parseInt10 (match_digits s) = r # g # b # others \<and> r \<le> 255 \<and> g \<le> 255 \<and> b \<le> 255"
  have "shl32 (int r) 16 = int r * 2 ^ 16" using h by (intro shl32_small) simp_all
  moreover have "shl32 (int g) 8 = int g * 2 ^ 8" using h by (intro shl32_small) simp_all
  ultimately have "2 ^ 24 + shl32 (int r) 16 + shl32 (int g) 8 + int b
       = int (2 ^ 24 + r * 65536 + g * 256 + b)" by simp
  then have "toString16 (2 ^ 24 + shl32 (int r) 16 + shl32 (int g) 8 + int b)
       = hex_of_nat (2 ^ 24 + r * 65536 + g * 256 + b)"
    unfolding toString16_def by (simp only: nat_int) simp
  also have "\<dots> = CHR ''1'' # hex2 r @ hex2 g @ hex2 b"
    using h by (intro hex_of_packed) simp_all
  finally show eq: "rgbToHex s = CHR ''#'' # hex2 r @ hex2 g @ hex2 b"
    using h by (simp add: rgbToHex_def)
  have "r div 16 < 16" "g div 16 < 16" "b div 16 < 16" using h by arith+
  then show "is_hash_hex6 (rgbToHex s)"
    unfolding eq by (simp add: is_hash_hex6_def hex2_def hexdigit_is_hex)
next
  assume "match_digits s = []"
  then show "rgbToHex s = ''#000000''" by (simp add: rgbToHex_def)
qed

theorem rgbToHex_channels_in_range_witness:
  "rgbToHex ''rgb(255, 0, 16)'' = ''#ff0010'' \<and> is_hash_hex6 (rgbToHex ''rgb(255, 0, 16)'')
   \<and> rgbToHex ''none'' = ''#000000''"
  using rgbToHex_channels_in_range [of "''rgb(255, 0, 16)''" 255 0 16 "[]"]
    rgbToHex_channels_in_range [of "''none''" 0 0 0 "[]"]
  by (simp add: match_digits_def is_digit_def parseInt10_def digit_val_def hex2_def hexdigit_def
      is_hash_hex6_def is_hex_digit_def)

text \<open>
  C9 as stated fails: a channel above 255 is not read as \<open>0\<close> (a blue of 256 carries into
  green), a red of 4096 gives seven digits, and a missing blue gives \<open>#aN\<close>.
\<close>

theorem rgbToHex_out_of_range_counterexample:
  "rgbToHex ''rgb(0,0,256)'' = ''#000100''
   \<and> rgbToHex ''rgb(4096,0,0)'' = ''#1000000'' \<and> \<not> is_hash_hex6 (rgbToHex ''rgb(4096,0,0)'')
   \<and> rgbToHex ''rgb(1,2)'' = ''#aN'' \<and> \<not> is_hash_hex6 (rgbToHex ''rgb(1,2)'')"
  by (simp add: color_eval is_hash_hex6_def)

subsection \<open>Checkpoint: save and load\<close>

lemma length_row_of: "length (row_of i j) = j - i"
  by (simp add: row_of_def del: upt_rec_numeral)

lemma drop_row_of: "drop n (row_of i j) = row_of (i + n) j"
  by (simp add: row_of_def drop_map add.commute del: upt_rec_numeral)

lemma take_row_of: "i + n \<le> j \<Longrightarrow> take n (row_of i j) = row_of i (i + n)"
  by (simp add: row_of_def take_map del: upt_rec_numeral)

text \<open>
  C2. When the tasks from the cursor onward are at most \<open>largeSaveCap\<close> (50000 in the
  constructor), \<open>loadState\<close> on any object that finds in the store what \<open>saveState\<close> has
  written there (the same object, or a fresh one after a reload of the page) succeeds and
  installs exactly these tasks as the queue, with the cursor at \<open>0\<close>.
\<close>

theorem save_load_round_trip:
  assumes "length (drop (currentPixel b) (pixels b)) \<le> largeSaveCap b"
    and "storage b' = storage (saveState b)"
  shows "fst (loadState b')
         \<and> pixels (snd (loadState b')) = drop (currentPixel b) (pixels b)
         \<and> currentPixel (snd (loadState b')) = 0"
  using assms by (simp add: loadState_def saveState_def Let_def)

theorem save_load_round_trip_witness:
  "largeSaveCap new_bot = 50000
   \<and> pixels (snd (loadState (new_bot\<lparr>storage := storage (saveState (new_bot\<lparr>currentPixel := 1,
        pixels := [\<lparr>px = 0, py = 0, pcolor = ''#000000''\<rparr>, \<lparr>px = 1, py = 0, pcolor = ''#ff0000''\<rparr>,
                   \<lparr>px = 0, py = 1, pcolor = ''#00ff00''\<rparr>]\<rparr>))\<rparr>)))
     = [\<lparr>px = 1, py = 0, pcolor = ''#ff0000''\<rparr>, \<lparr>px = 0, py = 1, pcolor = ''#00ff00''\<rparr>]
   \<and> currentPixel (snd (loadState (new_bot\<lparr>storage := storage (saveState (new_bot\<lparr>currentPixel := 1,
        pixels := [\<lparr>px = 0, py = 0, pcolor = ''#000000''\<rparr>, \<lparr>px = 1, py = 0, pcolor = ''#ff0000''\<rparr>,
                   \<lparr>px = 0, py = 1, pcolor = ''#00ff00''\<rparr>]\<rparr>))\<rparr>))) = 0
   \<and> pixels (snd (loadState (saveState (new_bot\<lparr>currentPixel := 1,
        pixels := [\<lparr>px = 0, py = 0, pcolor = ''#000000''\<rparr>, \<lparr>px = 1, py = 0, pcolor = ''#ff0000''\<rparr>,
                   \<lparr>px = 0, py = 1, pcolor = ''#00ff00''\<rparr>]\<rparr>))))
     = [\<lparr>px = 1, py = 0, pcolor = ''#ff0000''\<rparr>, \<lparr>px = 0, py = 1, pcolor = ''#00ff00''\<rparr>]"
proof -
  let ?b = "new_bot\<lparr>currentPixel := 1,
        pixels := [\<lparr>px = 0, py = 0, pcolor = ''#000000''\<rparr>, \<lparr>px = 1, py = 0, pcolor = ''#ff0000''\<rparr>,
                   \<lparr>px = 0, py = 1, pcolor = ''#00ff00''\<rparr>]\<rparr>"
  have h: "length (drop (currentPixel ?b) (pixels ?b)) \<le> largeSaveCap ?b"
    by (simp add: new_bot_def)
  have r: "drop (currentPixel ?b) (pixels ?b)
      = [\<lparr>px = 1, py = 0, pcolor = ''#ff0000''\<rparr>, \<lparr>px = 0, py = 1, pcolor = ''#00ff00''\<rparr>]"
    by simp
  from save_load_round_trip [OF h, of "new_bot\<lparr>storage := storage (saveState ?b)\<rparr>"]
    save_load_round_trip [OF h, of "saveState ?b"]
  show ?thesis
    unfolding r by (simp add: new_bot_def)
qed

text \<open>
  C5. When more than \<open>largeSaveCap\<close> tasks remain, \<open>saveState\<close> stores exactly the first
  \<open>largeSaveCap\<close> of them; and whatever the state, \<open>loadState\<close> after \<open>saveState\<close> installs
  at most \<open>largeSaveCap\<close> tasks.
\<close>

theorem save_truncates_at_cap:
  "(largeSaveCap b < length (drop (currentPixel b) (pixels b))
      \<longrightarrow> (\<exists>s. storage (saveState b) = Some s
            \<and> sv_remaining s = take (largeSaveCap b) (drop (currentPixel b) (pixels b))
            \<and> length (sv_remaining s) = largeSaveCap b))
   \<and> fst (loadState (saveState b))
   \<and> length (pixels (snd (loadState (saveState b)))) \<le> largeSaveCap b"
  by (simp add: loadState_def saveState_def Let_def)

theorem save_truncates_at_cap_witness:
  "largeSaveCap (new_bot\<lparr>pixels := row_of 0 50004, currentPixel := 3\<rparr>) = 50000
   \<and> length (drop 3 (row_of 0 50004)) = 50001
   \<and> (\<exists>s. storage (saveState (new_bot\<lparr>pixels := row_of 0 50004, currentPixel := 3\<rparr>)) = Some s
          \<and> sv_remaining s = row_of 3 50003 \<and> length (sv_remaining s) = 50000)
   \<and> length (pixels (snd (loadState (saveState
        (new_bot\<lparr>pixels := row_of 0 50004, currentPixel := 3\<rparr>))))) \<le> 50000"
  using save_truncates_at_cap [of "new_bot\<lparr>pixels := row_of 0 50004, currentPixel := 3\<rparr>"]
  by (simp add: new_bot_def length_row_of drop_row_of take_row_of)

subsection \<open>Loading: rejection of a batch\<close>







lemma floor_rat_numeral: "\<lfloor>numeral a / numeral b :: rat\<rfloor> = numeral a div numeral b"
  using floor_divide_of_int_eq [of "numeral a" "numeral b", where ?'a = rat] by simp

lemmas load_eval = normalize_item_def normalize_color_def trim_def is_space_def is_hash_hex6_def
  is_rgb_prefix_def math_floor_def is_negative_def is_finite_def to_int_def
  malformed_def bad_coordinate_def bad_color_def narrow_def rgb_template_def dec_of_nat.simps

lemmas queue_eval = floor_rat_numeral Let_def loadImageFromData_def dedup_sort_def sort_by_def
  map_values_def map_set_def compare_yx_def saveState_def new_bot_def coord_def yx_less_def



subsection \<open>Loading: the installed queue\<close>

lemma normalize_all_Some:
  "normalize_all wide items = Some ns \<Longrightarrow> map (normalize_item wide) items = map Some ns"
  by (induction items arbitrary: ns) (auto split: option.splits)

lemma normalize_all_nth:
  assumes "normalize_all wide items = Some ns"
  shows "length ns = length items"
    and "i < length items \<Longrightarrow> normalize_item wide (items ! i) = Some (ns ! i)"
proof -
  from assms have m: "map (normalize_item wide) items = map Some ns" by (rule normalize_all_Some)
  from m have "length (map (normalize_item wide) items) = length (map Some ns)" by simp
  then show len: "length ns = length items" by simp
  assume i: "i < length items"
  from m have "map (normalize_item wide) items ! i = map Some ns ! i" by simp
  with i len show "normalize_item wide (items ! i) = Some (ns ! i)" by simp
qed

paragraph \<open>The Map of the deduplication\<close>

lemma map_of_fold_map_set:
  "map_of (fold map_set ns m) = map_of m ++ map_of (rev (map (\<lambda>n. (coord n, n)) ns))"
proof (induction ns arbitrary: m)
  case Nil
  show ?case by simp
next
  case (Cons n ns)
  have "map_of (map_set n m) = (map_of m)(coord n \<mapsto> n)"
    by (simp add: map_set_def coord_def update_conv')
  then show ?case
    by (simp add: Cons.IH map_of_append fun_eq_iff map_add_def split: option.split)
qed

lemma distinct_fold_map_set:
  "distinct (map fst m) \<Longrightarrow> distinct (map fst (fold map_set ns m))"
  by (induction ns arbitrary: m) (simp_all add: map_set_def distinct_update)

lemma set_update_subset: "set (AList.update k v al) \<subseteq> insert (k, v) (set al)"
  by (induction al) auto

lemma keyed_fold_map_set:
  "\<forall>(k, p)\<in>set m. k = coord p \<Longrightarrow> \<forall>(k, p)\<in>set (fold map_set ns m). k = coord p"
proof (induction ns arbitrary: m)
  case Nil
  then show ?case by simp
next
  case (Cons n ns)
  have "set (map_set n m) \<subseteq> insert (coord n, n) (set m)"
    using set_update_subset [of "coord n" n m] by (simp add: map_set_def coord_def)
  with Cons.prems have "\<forall>(k, p)\<in>set (map_set n m). k = coord p" by auto
  from Cons.IH [OF this] show ?case by simp
qed

lemma map_of_rev_last:
  "map_of (rev (map (\<lambda>n. (coord n, n)) ns)) k = Some p \<Longrightarrow>
     \<exists>i<length ns. ns ! i = p \<and> coord p = k \<and> (\<forall>j<length ns. i < j \<longrightarrow> coord (ns ! j) \<noteq> k)"
proof (induction ns rule: rev_induct)
  case Nil
  then show ?case by simp
next
  case (snoc n ns)
  show ?case
  proof (cases "coord n = k")
    case True
    with snoc.prems have "p = n" by simp
    with True show ?thesis
      by (intro exI [of _ "length ns"]) simp
  next
    case False
    with snoc.prems have "map_of (rev (map (\<lambda>n. (coord n, n)) ns)) k = Some p" by simp
    from snoc.IH [OF this] obtain i where i: "i < length ns" "ns ! i = p" "coord p = k"
      "\<forall>j<length ns. i < j \<longrightarrow> coord (ns ! j) \<noteq> k" by blast
    have "\<forall>j<length (ns @ [n]). i < j \<longrightarrow> coord ((ns @ [n]) ! j) \<noteq> k"
      using i(4) False by (auto simp: nth_append)
    with i show ?thesis
      by (intro exI [of _ i]) (simp add: nth_append)
  qed
qed

lemma dedup_values:
  assumes "p \<in> set (map_values (fold map_set ns []))"
  shows "\<exists>i<length ns. ns ! i = p \<and> (\<forall>j<length ns. i < j \<longrightarrow> coord (ns ! j) \<noteq> coord p)"
proof -
  let ?al = "fold map_set ns []"
  from assms obtain k where kp: "(k, p) \<in> set ?al" by (auto simp: map_values_def)
  have d: "distinct (map fst ?al)" by (rule distinct_fold_map_set) simp
  with kp have "map_of ?al k = Some p" by simp
  then have "map_of (rev (map (\<lambda>n. (coord n, n)) ns)) k = Some p"
    by (simp add: map_of_fold_map_set)
  from map_of_rev_last [OF this] show ?thesis by blast
qed

lemma dedup_coords:
  "map coord (map_values (fold map_set ns [])) = map fst (fold map_set ns [])"
proof -
  have "\<forall>(k, p)\<in>set (fold map_set ns []). k = coord p"
    by (rule keyed_fold_map_set) simp
  then show ?thesis by (auto simp: map_values_def)
qed

lemma dedup_distinct: "distinct (map coord (map_values (fold map_set ns [])))"
  unfolding dedup_coords by (rule distinct_fold_map_set) simp

lemma dedup_covers:
  assumes "n \<in> set ns"
  shows "coord n \<in> coord ` set (map_values (fold map_set ns []))"
proof -
  have "map_of (rev (map (\<lambda>n. (coord n, n)) ns)) (coord n) \<noteq> None"
    using assms by (auto simp: map_of_eq_None_iff image_iff)
  then have "map_of (fold map_set ns []) (coord n) \<noteq> None"
    by (simp add: map_of_fold_map_set)
  then have "coord n \<in> fst ` set (fold map_set ns [])"
    by (simp add: map_of_eq_None_iff)
  then have "coord n \<in> set (map fst (fold map_set ns []))" by simp
  then show ?thesis by (simp only: dedup_coords [symmetric] set_map)
qed

paragraph \<open>The sort\<close>

lemma compare_yx_neg: "compare_yx a b < 0 \<longleftrightarrow> yx_less a b"
  by (auto simp: compare_yx_def yx_less_def)

lemma set_insert_by: "set (insert_by c x ys) = insert x (set ys)"
  by (induction ys) auto

lemma set_fold_insert_by: "set (fold (insert_by c) xs acc) = set xs \<union> set acc"
  by (induction xs arbitrary: acc) (auto simp: set_insert_by)

lemma distinct_insert_by:
  "distinct (map f (insert_by c x ys)) \<longleftrightarrow> f x \<notin> f ` set ys \<and> distinct (map f ys)"
  by (induction ys) (auto simp: set_insert_by)

lemma distinct_fold_insert_by:
  "distinct (map f (fold (insert_by c) xs acc)) \<longleftrightarrow> distinct (map f (xs @ acc))"
  by (induction xs arbitrary: acc) (auto simp: distinct_insert_by set_fold_insert_by set_insert_by)

lemma sorted_insert_by:
  "sorted_wrt yx_le ys \<Longrightarrow> sorted_wrt yx_le (insert_by compare_yx x ys)"
proof (induction ys)
  case Nil
  show ?case by simp
next
  case (Cons y ys)
  show ?case
  proof (cases "compare_yx x y < 0")
    case True
    then have xy: "yx_le x y" by (auto simp: compare_yx_neg yx_less_def yx_le_def)
    have "\<forall>z\<in>set ys. yx_le x z"
      using Cons.prems xy by (auto simp: yx_le_def)
    with True xy Cons.prems show ?thesis by simp
  next
    case False
    then have yx: "yx_le y x" by (auto simp: compare_yx_neg yx_less_def yx_le_def)
    with False Cons show ?thesis by (auto simp: set_insert_by)
  qed
qed

lemma sorted_fold_insert_by:
  "sorted_wrt yx_le acc \<Longrightarrow> sorted_wrt yx_le (fold (insert_by compare_yx) xs acc)"
  by (induction xs arbitrary: acc) (simp_all add: sorted_insert_by)

lemma strict_of_distinct:
  "sorted_wrt yx_le xs \<Longrightarrow> distinct (map coord xs) \<Longrightarrow> sorted_wrt yx_less xs"
proof (induction xs)
  case Nil
  show ?case by simp
next
  case (Cons x xs)
  have "yx_less x z" if "z \<in> set xs" for z
  proof -
    from Cons.prems that have "yx_le x z" "coord x \<noteq> coord z" by auto
    then show ?thesis by (auto simp: yx_le_def yx_less_def coord_def)
  qed
  with Cons show ?case by simp
qed

lemma dedup_sort_props:
  "set (dedup_sort ns) = set (map_values (fold map_set ns []))"
  "distinct (map coord (dedup_sort ns))"
  "sorted_wrt yx_less (dedup_sort ns)"
proof -
  show s: "set (dedup_sort ns) = set (map_values (fold map_set ns []))"
    by (simp add: dedup_sort_def sort_by_def set_fold_insert_by)
  show d: "distinct (map coord (dedup_sort ns))"
    by (simp add: dedup_sort_def sort_by_def distinct_fold_insert_by dedup_distinct)
  have "sorted_wrt yx_le (dedup_sort ns)"
    by (simp add: dedup_sort_def sort_by_def sorted_fold_insert_by)
  then show "sorted_wrt yx_less (dedup_sort ns)" using d by (rule strict_of_distinct)
qed

text \<open>
  C1. When \<open>loadImageFromData\<close> accepts a list of raw items, the installed queue has
  pairwise distinct coordinates, holds a task at the coordinate of every item, each of its
  tasks is what the validation loop makes of the last item with that coordinate (so that
  the colour specified last wins), and it is strictly ascending by \<open>(y, x)\<close>.
\<close>

theorem loadImageFromData_dedup_sorted:
  assumes "loadImageFromData (Array items) name b = (True, b')"
  shows "distinct (map coord (pixels b'))
    \<and> (\<forall>i<length items. \<exists>p\<in>set (pixels b').
          map_option coord (normalize_item (wide_normal (engine b)) (items ! i)) = Some (coord p))
    \<and> (\<forall>p\<in>set (pixels b'). \<exists>i<length items.
          normalize_item (wide_normal (engine b)) (items ! i) = Some p
          \<and> (\<forall>j<length items. i < j \<longrightarrow>
                map_option coord (normalize_item (wide_normal (engine b)) (items ! j))
                  \<noteq> Some (coord p)))
    \<and> sorted_wrt yx_less (pixels b')"
proof -
  let ?w = "wide_normal (engine b)"
  from assms obtain ns where ns: "normalize_all ?w items = Some ns"
    by (auto simp: loadImageFromData_def split: option.splits)
  with assms have q: "pixels b' = dedup_sort ns"
    by (auto simp: loadImageFromData_def Let_def saveState_def split: if_splits)
  note nth = normalize_all_nth [OF ns]
  have covers: "\<forall>i<length items. \<exists>p\<in>set (pixels b').
          map_option coord (normalize_item ?w (items ! i)) = Some (coord p)"
  proof (intro allI impI)
    fix i assume i: "i < length items"
    then have "ns ! i \<in> set ns" using nth(1) by simp
    from dedup_covers [OF this] obtain p where
      "p \<in> set (map_values (fold map_set ns []))" "coord (ns ! i) = coord p" by auto
    with i show "\<exists>p\<in>set (pixels b').
          map_option coord (normalize_item ?w (items ! i)) = Some (coord p)"
      by (auto simp: q dedup_sort_props(1) nth(2))
  qed
  have last: "\<forall>p\<in>set (pixels b'). \<exists>i<length items.
          normalize_item ?w (items ! i) = Some p
          \<and> (\<forall>j<length items. i < j \<longrightarrow>
                map_option coord (normalize_item ?w (items ! j)) \<noteq> Some (coord p))"
  proof
    fix p assume "p \<in> set (pixels b')"
    then have "p \<in> set (map_values (fold map_set ns []))"
      by (simp add: q dedup_sort_props(1))
    from dedup_values [OF this] obtain i where
      i: "i < length ns" "ns ! i = p" "\<forall>j<length ns. i < j \<longrightarrow> coord (ns ! j) \<noteq> coord p"
      by blast
    show "\<exists>i<length items. normalize_item ?w (items ! i) = Some p
          \<and> (\<forall>j<length items. i < j \<longrightarrow>
                map_option coord (normalize_item ?w (items ! j)) \<noteq> Some (coord p))"
      using i nth by (intro exI [of _ i]) simp
  qed
  show ?thesis
    using covers last by (simp add: q dedup_sort_props)
qed

theorem loadImageFromData_dedup_sorted_witness:
  "fst (loadImageFromData
         (Array [Item (JNum (Fin 1)) (JNum (Fin 1)) (JStr ''#ff0000''),
                 Item (JNum (Fin 0)) (JNum (Fin 1)) (JStr (''#00ff00'' @ [CHR 0xA0])),
                 Item (JNum (Fin (3 / 2))) (JNum (Fin 1)) (JStr '' rgb(0, 0, 255) ''),
                 Item (JNum (Fin 2)) (JNum (Fin 0)) (JStr ''#ABCDEF'')]) ''img'' new_bot)
   \<and> pixels (snd (loadImageFromData
         (Array [Item (JNum (Fin 1)) (JNum (Fin 1)) (JStr ''#ff0000''),
                 Item (JNum (Fin 0)) (JNum (Fin 1)) (JStr (''#00ff00'' @ [CHR 0xA0])),
                 Item (JNum (Fin (3 / 2))) (JNum (Fin 1)) (JStr '' rgb(0, 0, 255) ''),
                 Item (JNum (Fin 2)) (JNum (Fin 0)) (JStr ''#ABCDEF'')]) ''img'' new_bot))
     = [\<lparr>px = 2, py = 0, pcolor = ''#ABCDEF''\<rparr>, \<lparr>px = 0, py = 1, pcolor = ''#00ff00''\<rparr>,
        \<lparr>px = 1, py = 1, pcolor = ''#0000ff''\<rparr>]
   \<and> sorted_wrt yx_less
        [\<lparr>px = 2, py = 0, pcolor = ''#ABCDEF''\<rparr>, \<lparr>px = 0, py = 1, pcolor = ''#00ff00''\<rparr>,
         \<lparr>px = 1, py = 1, pcolor = ''#0000ff''\<rparr>]"
proof -
  let ?items = "[Item (JNum (Fin 1)) (JNum (Fin 1)) (JStr ''#ff0000''),
                 Item (JNum (Fin 0)) (JNum (Fin 1)) (JStr (''#00ff00'' @ [CHR 0xA0])),
                 Item (JNum (Fin (3 / 2))) (JNum (Fin 1)) (JStr '' rgb(0, 0, 255) ''),
                 Item (JNum (Fin 2)) (JNum (Fin 0)) (JStr ''#ABCDEF'')]"
  let ?r = "loadImageFromData (Array ?items) ''img'' new_bot"
  have q: "fst ?r \<and> pixels (snd ?r)
     = [\<lparr>px = 2, py = 0, pcolor = ''#ABCDEF''\<rparr>, \<lparr>px = 0, py = 1, pcolor = ''#00ff00''\<rparr>,
        \<lparr>px = 1, py = 1, pcolor = ''#0000ff''\<rparr>]"
    by (simp add: queue_eval load_eval color_eval)
  then have "?r = (True, snd ?r)" by (cases ?r) simp
  from loadImageFromData_dedup_sorted [OF this] q show ?thesis by simp
qed

subsection \<open>The locked-colour policy\<close>

lemma arg_min_list_le: "x \<in> set xs \<Longrightarrow> f (arg_min_list f xs) \<le> f x"
  for f :: "'a \<Rightarrow> real"
proof -
  assume x: "x \<in> set xs"
  then have "xs \<noteq> []" by auto
  then have "f (arg_min_list f xs) = Min (f ` set xs)" by (rule f_arg_min_list_f)
  with x show ?thesis by simp
qed



lemma eligible_Dist: "eligible dv t ou e \<Longrightarrow> entry_dist dv t e = Dist (magnitude (entry_dist dv t e))"
  by (cases "entry_dist dv t e") (simp_all add: eligible_def magnitude_def)







lemma nearest_Some:
  assumes "nearest dv t ou es = Some u"
  shows "u \<in> set es" "eligible dv t ou u"
    "\<forall>e\<in>set es. eligible dv t ou e \<longrightarrow> magnitude (entry_dist dv t u) \<le> magnitude (entry_dist dv t e)"
proof -
  let ?c = "filter (eligible dv t ou) es"
  let ?f = "\<lambda>e. magnitude (entry_dist dv t e)"
  from assms have ne: "?c \<noteq> []" and u: "u = arg_min_list ?f ?c"
    by (auto simp: nearest_def split: list.splits)
  from ne have "u \<in> set ?c" unfolding u by (rule arg_min_list_in)
  then show "u \<in> set es" "eligible dv t ou u" by simp_all
  show "\<forall>e\<in>set es. eligible dv t ou e \<longrightarrow> ?f u \<le> ?f e"
  proof (intro ballI impI)
    fix e assume "e \<in> set es" "eligible dv t ou e"
    then have "e \<in> set ?c" by simp
    then show "?f u \<le> ?f e" unfolding u by (rule arg_min_list_le)
  qed
qed

lemma nearest_None: "nearest dv t ou es = None \<longleftrightarrow> (\<forall>e\<in>set es. \<not> eligible dv t ou e)"
proof -
  have "nearest dv t ou es = None \<longleftrightarrow> filter (eligible dv t ou) es = []"
    by (simp add: nearest_def split: list.split)
  then show ?thesis by (simp add: filter_empty_conv)
qed

lemma eligible_has_rgb: "eligible dv t ou e \<Longrightarrow> has_rgb e"
  by (auto simp: eligible_def entry_dist_def has_rgb_def split: option.splits)


text \<open>
  Under such an engine, an entry at a finite distance that is strictly nearer, exactly,
  than every other entry with an RGB value is the nearest entry.
\<close>

lemma nearest_of_strict:
  assumes "keeps_order dv t es" and "a \<in> set es" and "entry_dist dv t a \<noteq> Infinite"
    and "\<forall>e\<in>set es. has_rgb e \<and> e \<noteq> a \<longrightarrow> exact_sq t a < exact_sq t e"
  shows "nearest dv t False es = Some a"
proof -
  from assms(3) have ea: "eligible dv t False a" by (simp add: eligible_def)
  with assms(2) have "nearest dv t False es \<noteq> None" by (auto simp: nearest_None)
  then obtain m where m: "nearest dv t False es = Some m" by blast
  note n = nearest_Some [OF m]
  have "m = a"
  proof (rule ccontr)
    assume ne: "m \<noteq> a"
    from n(2) have hm: "has_rgb m" by (rule eligible_has_rgb)
    from ea have ha: "has_rgb a" by (rule eligible_has_rgb)
    from assms(4) n(1) hm ne have "exact_sq t a < exact_sq t m" by blast
    with assms(1,2) n(1) ha hm have dl: "dist_less (entry_dist dv t a) (entry_dist dv t m)"
      unfolding keeps_order_def by blast
    obtain x where x: "entry_dist dv t m = Dist x" using eligible_Dist [OF n(2)] by blast
    from dl x obtain y where y: "entry_dist dv t a = Dist y" "y < x"
      by (cases "entry_dist dv t a") simp_all
    from n(3) assms(2) ea have "magnitude (entry_dist dv t m) \<le> magnitude (entry_dist dv t a)"
      by blast
    with x y show False by (simp add: magnitude_def)
  qed
  with m show ?thesis by simp
qed





subsection \<open>The drawing loop: one turn\<close>

lemma canvas_clicks_simps:
  "canvas_clicks [] = []"
  "canvas_clicks (xs @ ys) = canvas_clicks xs @ canvas_clicks ys"
  "canvas_clicks (CanvasClick x y # xs) = (x, y) # canvas_clicks xs"
  "canvas_clicks (SwatchClick n # xs) = canvas_clicks xs"
  "canvas_clicks (Advisory a # xs) = canvas_clicks xs"
  by (simp_all add: canvas_clicks_def)

lemma selectColorSmart_frame:
  "pixels (snd (selectColorSmart t b)) = pixels b"
  "currentPixel (snd (selectColorSmart t b)) = currentPixel b"
  "isRunning (snd (selectColorSmart t b)) = isRunning b"
  "largeSaveCap (snd (selectColorSmart t b)) = largeSaveCap b"
  "canvas (snd (selectColorSmart t b)) = canvas b"
  "startX (snd (selectColorSmart t b)) = startX b"
  "startY (snd (selectColorSmart t b)) = startY b"
  "canvas_clicks (trace (snd (selectColorSmart t b))) = canvas_clicks (trace b)"
  by (simp_all add: selectColorSmart_def click_swatch_def to_manual_def canvas_clicks_simps
        warn_once_def split: option.split)

lemma suspend_frame:
  "pixels (suspend s b) = pixels b"
  "currentPixel (suspend s b) = currentPixel b"
  "isRunning (suspend s b) = (isRunning b \<and> \<not> s)"
  "largeSaveCap (suspend s b) = largeSaveCap b"
  "canvas (suspend s b) = canvas b"
  "startX (suspend s b) = startX b"
  "startY (suspend s b) = startY b"
  "trace (suspend s b) = trace b"
  "useAutoPalette (suspend s b) = useAutoPalette b"
  "autoWarned (suspend s b) = autoWarned b"
  by (simp_all add: suspend_def stop_def saveState_def Let_def)

lemma place_frame:
  "pixels (place x y s b) = pixels b"
  "currentPixel (place x y s b) = currentPixel b + 1"
  "isRunning (place x y s b) = (isRunning b \<and> \<not> s)"
  "largeSaveCap (place x y s b) = largeSaveCap b"
  "canvas (place x y s b) = canvas b"
  "startX (place x y s b) = startX b"
  "startY (place x y s b) = startY b"
  "trace (place x y s b) = trace b @ (if canvas b then [CanvasClick x y] else [])"
  "useAutoPalette (place x y s b) = useAutoPalette b"
  "autoWarned (place x y s b) = autoWarned b"
  by (simp_all add: place_def clickCanvas_def suspend_frame saveState_def Let_def)

lemma iteration_frame:
  "pixels (iteration W H s b) = pixels b"
  "currentPixel (iteration W H s b) = currentPixel b + 1"
  "isRunning (iteration W H s b) = (isRunning b \<and> \<not> s)"
  "largeSaveCap (iteration W H s b) = largeSaveCap b"
  "canvas (iteration W H s b) = canvas b"
  "startX (iteration W H s b) = startX b"
  "startY (iteration W H s b) = startY b"
proof -
  obtain r b1 where sel: "selectColorSmart (pcolor (pixels b ! currentPixel b)) b = (r, b1)"
    by (cases "selectColorSmart (pcolor (pixels b ! currentPixel b)) b")
  note f = selectColorSmart_frame [of "pcolor (pixels b ! currentPixel b)" b, unfolded sel snd_conv]
  show "pixels (iteration W H s b) = pixels b"
    "currentPixel (iteration W H s b) = currentPixel b + 1"
    "isRunning (iteration W H s b) = (isRunning b \<and> \<not> s)"
    "largeSaveCap (iteration W H s b) = largeSaveCap b"
    "canvas (iteration W H s b) = canvas b"
    "startX (iteration W H s b) = startX b"
    "startY (iteration W H s b) = startY b"
    by (simp_all add: iteration_def Let_def sel f suspend_frame place_frame split: select_result.split)
qed



paragraph \<open>The loop\<close>

lemma loop_step:
  "isRunning b \<Longrightarrow> currentPixel b < length (pixels b) \<Longrightarrow>
     loop W H stops b = loop W H stops (iteration W H (stops (currentPixel b)) b)"
  by (subst loop.simps) simp

lemma loop_exit: "\<not> (isRunning b \<and> currentPixel b < length (pixels b)) \<Longrightarrow> loop W H stops b = b"
  by (subst loop.simps) auto

lemma loop_completes:
  assumes "isRunning b" and "currentPixel b \<le> length (pixels b)"
    and "\<forall>i. currentPixel b \<le> i \<and> i < length (pixels b) \<longrightarrow> \<not> stops i"
  shows "currentPixel (loop W H stops b) = length (pixels b) \<and> isRunning (loop W H stops b)
    \<and> pixels (loop W H stops b) = pixels b \<and> largeSaveCap (loop W H stops b) = largeSaveCap b"
  using assms
proof (induction "length (pixels b) - currentPixel b" arbitrary: b)
  case 0
  then have "loop W H stops b = b" by (intro loop_exit) simp
  with 0 show ?case by simp
next
  case (Suc n)
  let ?b = "iteration W H (stops (currentPixel b)) b"
  from Suc.hyps(2) have lt: "currentPixel b < length (pixels b)" by simp
  with Suc.prems have ns: "\<not> stops (currentPixel b)" by simp
  have "n = length (pixels ?b) - currentPixel ?b"
    using Suc.hyps(2) by (simp add: iteration_frame)
  moreover have "isRunning ?b" using Suc.prems(1) ns by (simp add: iteration_frame)
  moreover have "currentPixel ?b \<le> length (pixels ?b)" using lt by (simp add: iteration_frame)
  moreover have "\<forall>i. currentPixel ?b \<le> i \<and> i < length (pixels ?b) \<longrightarrow> \<not> stops i"
    using Suc.prems(3) by (simp add: iteration_frame)
  ultimately have "currentPixel (loop W H stops ?b) = length (pixels ?b) \<and> isRunning (loop W H stops ?b)
    \<and> pixels (loop W H stops ?b) = pixels ?b \<and> largeSaveCap (loop W H stops ?b) = largeSaveCap ?b"
    by (rule Suc.hyps(1))
  then show ?case
    by (simp add: loop_step [OF Suc.prems(1) lt] iteration_frame)
qed

lemma loop_stopped:
  assumes "isRunning b" and "currentPixel b \<le> m" and "m < length (pixels b)" and "stops m"
    and "\<forall>i. currentPixel b \<le> i \<and> i < m \<longrightarrow> \<not> stops i"
  shows "currentPixel (loop W H stops b) = m + 1 \<and> \<not> isRunning (loop W H stops b)
    \<and> pixels (loop W H stops b) = pixels b \<and> largeSaveCap (loop W H stops b) = largeSaveCap b"
  using assms
proof (induction "m - currentPixel b" arbitrary: b)
  case 0
  let ?b = "iteration W H (stops (currentPixel b)) b"
  from 0 have cur: "currentPixel b = m" by simp
  then have lt: "currentPixel b < length (pixels b)" using 0 by simp
  have "\<not> isRunning ?b" using cur 0 by (simp add: iteration_frame)
  then have "loop W H stops ?b = ?b" by (intro loop_exit) simp
  then show ?case
    using cur 0 by (simp add: loop_step [OF "0.prems"(1) lt] iteration_frame)
next
  case (Suc n)
  let ?b = "iteration W H (stops (currentPixel b)) b"
  from Suc.hyps(2) have c: "currentPixel b < m" by simp
  with Suc.prems have lt: "currentPixel b < length (pixels b)" by simp
  from c Suc.prems have ns: "\<not> stops (currentPixel b)" by simp
  have "n = m - currentPixel ?b" using Suc.hyps(2) by (simp add: iteration_frame)
  moreover have "isRunning ?b" using Suc.prems(1) ns by (simp add: iteration_frame)
  moreover have "currentPixel ?b \<le> m" using c by (simp add: iteration_frame)
  moreover have "m < length (pixels ?b)" using Suc.prems(3) by (simp add: iteration_frame)
  moreover note Suc.prems(4)
  moreover have "\<forall>i. currentPixel ?b \<le> i \<and> i < m \<longrightarrow> \<not> stops i"
    using Suc.prems(5) by (simp add: iteration_frame)
  ultimately have "currentPixel (loop W H stops ?b) = m + 1 \<and> \<not> isRunning (loop W H stops ?b)
    \<and> pixels (loop W H stops ?b) = pixels ?b \<and> largeSaveCap (loop W H stops ?b) = largeSaveCap ?b"
    by (rule Suc.hyps(1))
  then show ?case
    by (simp add: loop_step [OF Suc.prems(1) lt] iteration_frame)
qed





subsection \<open>The drawing loop: a run from start to its end\<close>

lemma start_eq:
  "\<not> isRunning b \<Longrightarrow> pixels b \<noteq> [] \<Longrightarrow> canvas b \<Longrightarrow>
     start stops b = finish (loop (cell_width b) (cell_height b) stops (loop_entry b))"
proof -
  have w: "cell_width (downgrade b) = cell_width b"
    by (simp add: downgrade_def cell_width_def)
  have "cell_height (downgrade b) = cell_height b"
    unfolding cell_height_def w by (simp add: downgrade_def)
  with w show "\<not> isRunning b \<Longrightarrow> pixels b \<noteq> [] \<Longrightarrow> canvas b \<Longrightarrow>
     start stops b = finish (loop (cell_width b) (cell_height b) stops (loop_entry b))"
    by (simp add: start_def Let_def loop_entry_def)
qed

lemma loop_entry_frame:
  "pixels (loop_entry b) = pixels b"
  "currentPixel (loop_entry b) = currentPixel b"
  "isRunning (loop_entry b)"
  "largeSaveCap (loop_entry b) = largeSaveCap b"
  "canvas (loop_entry b) = canvas b"
  "startX (loop_entry b) = startX b"
  "startY (loop_entry b) = startY b"
  "canvas_clicks (trace (loop_entry b)) = canvas_clicks (trace b)"
  "useAutoPalette (loop_entry b) = (useAutoPalette b \<and> colorPalette b \<noteq> [])"
  by (auto simp: loop_entry_def warn_cell_def downgrade_def canvas_clicks_simps warn_once_def)

lemma finish_frame:
  "currentPixel (finish b) = currentPixel b"
  "pixels (finish b) = pixels b"
  "\<not> isRunning (finish b)"
  "trace (finish b) = trace b"
  "useAutoPalette (finish b) = useAutoPalette b"
  "autoWarned (finish b) = autoWarned b"
  by (simp_all add: finish_def Let_def clearState_def saveState_def)

lemma finish_storage:
  "length (pixels b) \<le> currentPixel b \<Longrightarrow> storage (finish b) = None"
  "currentPixel b < length (pixels b) \<Longrightarrow>
     map_option sv_remaining (storage (finish b))
       = Some (take (largeSaveCap b) (drop (currentPixel b) (pixels b)))"
  by (simp_all add: finish_def Let_def clearState_def saveState_def)

lemma start_completed:
  assumes "\<not> isRunning b" and "pixels b \<noteq> []" and "canvas b"
    and "currentPixel b \<le> length (pixels b)"
    and "\<forall>i. currentPixel b \<le> i \<and> i < length (pixels b) \<longrightarrow> \<not> stops i"
  shows "currentPixel (start stops b) = length (pixels b) \<and> \<not> isRunning (start stops b)
    \<and> storage (start stops b) = None"
proof -
  let ?l = "loop (cell_width b) (cell_height b) stops (loop_entry b)"
  have "currentPixel ?l = length (pixels (loop_entry b)) \<and> isRunning ?l
    \<and> pixels ?l = pixels (loop_entry b) \<and> largeSaveCap ?l = largeSaveCap (loop_entry b)"
    using assms(4,5) by (intro loop_completes) (simp_all add: loop_entry_frame)
  then show ?thesis
    by (simp add: start_eq [OF assms(1-3)] finish_frame finish_storage loop_entry_frame)
qed

lemma start_stopped:
  assumes "\<not> isRunning b" and "pixels b \<noteq> []" and "canvas b"
    and "currentPixel b \<le> m" and "m + 1 < length (pixels b)" and "stops m"
    and "\<forall>i. currentPixel b \<le> i \<and> i < m \<longrightarrow> \<not> stops i"
  shows "currentPixel (start stops b) = m + 1 \<and> \<not> isRunning (start stops b)
    \<and> map_option sv_remaining (storage (start stops b))
         = Some (take (largeSaveCap b) (drop (m + 1) (pixels b)))"
proof -
  let ?l = "loop (cell_width b) (cell_height b) stops (loop_entry b)"
  have "currentPixel ?l = m + 1 \<and> \<not> isRunning ?l
    \<and> pixels ?l = pixels (loop_entry b) \<and> largeSaveCap ?l = largeSaveCap (loop_entry b)"
    using assms(4-7) by (intro loop_stopped) (simp_all add: loop_entry_frame)
  then show ?thesis
    using assms(5)
    by (simp add: start_eq [OF assms(1-3)] finish_frame finish_storage loop_entry_frame)
qed

text \<open>
  C4, as the code has it. Take a queue of \<open>k > 0\<close> tasks with the cursor at \<open>0\<close>, a located
  canvas and no run in progress. A run in which \<open>stop()\<close> is never called ends with the
  cursor at \<open>k\<close>, not running, and the checkpoint removed. A run in which \<open>stop()\<close> is first
  called during the turn of task \<open>j - 1\<close>, with \<open>0 < j < k\<close>, ends with the cursor at \<open>j\<close>,
  not running, and a checkpoint that holds the first \<open>largeSaveCap\<close> of the \<open>k - j\<close> tasks
  left: its length is the smaller of \<open>k - j\<close> and \<open>largeSaveCap\<close>.
\<close>

theorem start_finishes_or_stops:
  assumes "\<not> isRunning b" and "pixels b \<noteq> []" and "canvas b" and "currentPixel b = 0"
  shows "((\<forall>i<length (pixels b). \<not> stops i) \<longrightarrow>
            currentPixel (start stops b) = length (pixels b) \<and> \<not> isRunning (start stops b)
            \<and> storage (start stops b) = None)
    \<and> (\<forall>j. 0 < j \<and> j < length (pixels b) \<and> stops (j - 1) \<and> (\<forall>i<j - 1. \<not> stops i) \<longrightarrow>
            currentPixel (start stops b) = j \<and> \<not> isRunning (start stops b)
            \<and> map_option sv_remaining (storage (start stops b))
                 = Some (take (largeSaveCap b) (drop j (pixels b)))
            \<and> map_option (length \<circ> sv_remaining) (storage (start stops b))
                 = Some (min (length (pixels b) - j) (largeSaveCap b)))"
proof -
  have completed: "currentPixel (start stops b) = length (pixels b) \<and> \<not> isRunning (start stops b)
            \<and> storage (start stops b) = None"
    if "\<forall>i<length (pixels b). \<not> stops i"
    using assms that by (intro start_completed) simp_all
  have stopped: "currentPixel (start stops b) = j \<and> \<not> isRunning (start stops b)
            \<and> map_option sv_remaining (storage (start stops b))
                 = Some (take (largeSaveCap b) (drop j (pixels b)))
            \<and> map_option (length \<circ> sv_remaining) (storage (start stops b))
                 = Some (min (length (pixels b) - j) (largeSaveCap b))"
    if j: "0 < j \<and> j < length (pixels b) \<and> stops (j - 1) \<and> (\<forall>i<j - 1. \<not> stops i)" for j
  proof -
    have "currentPixel (start stops b) = (j - 1) + 1 \<and> \<not> isRunning (start stops b)
      \<and> map_option sv_remaining (storage (start stops b))
           = Some (take (largeSaveCap b) (drop ((j - 1) + 1) (pixels b)))"
      using assms j by (intro start_stopped) simp_all
    with j have r: "currentPixel (start stops b) = j \<and> \<not> isRunning (start stops b)
      \<and> map_option sv_remaining (storage (start stops b))
           = Some (take (largeSaveCap b) (drop j (pixels b)))"
      by simp
    then have "map_option (length \<circ> sv_remaining) (storage (start stops b))
                   = Some (min (length (pixels b) - j) (largeSaveCap b))"
      by (cases "storage (start stops b)") (auto simp: min.commute)
    with r show ?thesis by simp
  qed
  from completed stopped show ?thesis by blast
qed

theorem start_finishes_or_stops_witness:
  "currentPixel (start never_stopped short_run) = 3
   \<and> \<not> isRunning (start never_stopped short_run)
   \<and> storage (start never_stopped short_run) = None
   \<and> currentPixel (start (stopped_in_turn 1) short_run) = 2
   \<and> \<not> isRunning (start (stopped_in_turn 1) short_run)
   \<and> map_option sv_remaining (storage (start (stopped_in_turn 1) short_run))
       = Some [\<lparr>px = 0, py = 1, pcolor = ''#ff0000''\<rparr>]"
proof -
  have h: "\<not> isRunning short_run" "pixels short_run \<noteq> []" "canvas short_run"
    "currentPixel short_run = 0"
    by (simp_all add: short_run_def new_bot_def)
  have len: "length (pixels short_run) = 3"
    by (simp add: short_run_def new_bot_def)
  have rest: "take (largeSaveCap short_run) (drop 2 (pixels short_run))
      = [\<lparr>px = 0, py = 1, pcolor = ''#ff0000''\<rparr>]"
    by (simp add: short_run_def new_bot_def)
  from start_finishes_or_stops [OF h, of never_stopped]
  have a: "currentPixel (start never_stopped short_run) = 3
     \<and> \<not> isRunning (start never_stopped short_run)
     \<and> storage (start never_stopped short_run) = None"
    by (simp add: never_stopped_def len)
  from start_finishes_or_stops [OF h, of "stopped_in_turn 1", THEN conjunct2, THEN spec, of 2]
  have b: "currentPixel (start (stopped_in_turn 1) short_run) = 2
     \<and> \<not> isRunning (start (stopped_in_turn 1) short_run)
     \<and> map_option sv_remaining (storage (start (stopped_in_turn 1) short_run))
         = Some [\<lparr>px = 0, py = 1, pcolor = ''#ff0000''\<rparr>]"
    by (simp add: stopped_in_turn_def len rest)
  from a b show ?thesis by simp
qed

text \<open>
  C4 as stated fails for a long queue: of 50002 tasks, with \<open>stop()\<close> called during the
  first turn, 50001 are left and the checkpoint holds 50000.
\<close>

theorem start_stopped_checkpoint_counterexample:
  "currentPixel long_run = 0 \<and> length (pixels long_run) = 50002
   \<and> currentPixel (start (stopped_in_turn 0) long_run) = 1
   \<and> \<not> isRunning (start (stopped_in_turn 0) long_run)
   \<and> map_option (length \<circ> sv_remaining) (storage (start (stopped_in_turn 0) long_run))
       = Some 50000
   \<and> length (pixels long_run) - 1 \<noteq> 50000"
proof -
  have p: "pixels long_run = row_of 0 50002" "largeSaveCap long_run = 50000"
    "currentPixel long_run = 0" "\<not> isRunning long_run" "canvas long_run"
    by (simp_all add: long_run_def new_bot_def)
  have ne: "pixels long_run \<noteq> []"
    using length_row_of [of 0 50002] unfolding p(1) by auto
  have "currentPixel (start (stopped_in_turn 0) long_run) = 0 + 1
    \<and> \<not> isRunning (start (stopped_in_turn 0) long_run)
    \<and> map_option sv_remaining (storage (start (stopped_in_turn 0) long_run))
         = Some (take (largeSaveCap long_run) (drop (0 + 1) (pixels long_run)))"
    using p ne by (intro start_stopped) (simp_all add: stopped_in_turn_def length_row_of)
  then have "currentPixel (start (stopped_in_turn 0) long_run) = 1
    \<and> \<not> isRunning (start (stopped_in_turn 0) long_run)
    \<and> map_option (length \<circ> sv_remaining) (storage (start (stopped_in_turn 0) long_run))
         = Some (length (take 50000 (drop 1 (row_of 0 50002))))"
    by (cases "storage (start (stopped_in_turn 0) long_run)") (auto simp: p)
  then show ?thesis
    by (simp add: p length_row_of)
qed

subsection \<open>The drawing loop: where it clicks\<close>













subsection \<open>The drawing loop: empty palette\<close>






end
